theory Spec2Isabelle
  imports Main "HOL-Library.AList"
begin

section \<open>Errors\<close>

text \<open>
  Every exception the modelled Python code can raise is a value of this type.
  \<open>ValueError\<close> is raised by \<open>update_classes\<close> on an empty class config, by unpacking
  the result of \<open>line.split(' ', 1)\<close> when the line has no space, and by \<open>int()\<close> on a
  token that is not a number; \<open>KeyError\<close> by a dictionary lookup of a missing key;
  \<open>TypeError\<close> by ordering an \<open>int\<close> against a \<open>str\<close>; \<open>JSONDecodeError\<close> by
  \<open>json.load\<close>; \<open>IsADirectoryError\<close> and \<open>FileNotFoundError\<close> by \<open>open\<close>.
\<close>

datatype error =
  ValueError | KeyError | TypeError | JSONDecodeError | IsADirectoryError | FileNotFoundError

section \<open>Python strings\<close>

text \<open>
  A \<open>str\<close> is a \<open>string\<close>; files are read as text after newline translation, so the
  only line terminator is the character 10.
\<close>

definition newline :: char where
  "newline = CHR 0x0A"

definition space :: char where
  "space = CHR 0x20"

text \<open>
  \<open>file.readlines()\<close>: the lines of the text, each with its terminator, the last one
  possibly without. Successive calls of \<open>file.readline()\<close> return the same lines, then
  the empty string for ever.
\<close>

fun readlines :: "string \<Rightarrow> string list" where
  "readlines [] = []"
| "readlines (c # cs) =
     (if c = newline then [c] # readlines cs
      else (case readlines cs of [] \<Rightarrow> [[c]] | l # ls \<Rightarrow> (c # l) # ls))"

text \<open>\<open>s.split(' ', 1)[0]\<close>: the text before the first space, all of \<open>s\<close> without one.\<close>

definition first_token :: "string \<Rightarrow> string" where
  "first_token s = takeWhile (\<lambda>c. c \<noteq> space) s"

text \<open>
  \<open>a, b = s.split(' ', 1)\<close>: the text before and after the first space; without a
  space the list has one element and the unpacking raises (\<open>None\<close> here).
\<close>

definition split_once :: "string \<Rightarrow> (string \<times> string) option" where
  "split_once s =
     (if space \<in> set s
      then Some (takeWhile (\<lambda>c. c \<noteq> space) s, tl (dropWhile (\<lambda>c. c \<noteq> space) s))
      else None)"

text \<open>
  \<open>int(s)\<close> on a \<open>str\<close>: surrounding whitespace is stripped, one sign is allowed, then
  decimal digits, where single underscores may separate digits. \<open>None\<close> is the
  \<open>ValueError\<close>. Only ASCII digits and whitespace are modelled.
\<close>

definition is_space :: "char \<Rightarrow> bool" where
  "is_space c = (c \<in> set [CHR 0x09, CHR 0x0A, CHR 0x0B, CHR 0x0C, CHR 0x0D,
                           CHR 0x1C, CHR 0x1D, CHR 0x1E, CHR 0x1F, CHR 0x20])"

definition strip :: "string \<Rightarrow> string" where
  "strip s = rev (dropWhile is_space (rev (dropWhile is_space s)))"

definition is_digit :: "char \<Rightarrow> bool" where
  "is_digit c = (c \<in> set ''0123456789'')"

definition digit_val :: "char \<Rightarrow> nat" where
  "digit_val c = (of_char c :: nat) - 48"

fun parse_digits :: "string \<Rightarrow> nat \<Rightarrow> nat option" where
  "parse_digits [] acc = Some acc"
| "parse_digits [c] acc = (if is_digit c then Some (10 * acc + digit_val c) else None)"
| "parse_digits (c # d # ds) acc =
     (if is_digit c then parse_digits (d # ds) (10 * acc + digit_val c)
      else if c = CHR ''_'' \<and> is_digit d then parse_digits ds (10 * acc + digit_val d)
      else None)"

definition parse_nat :: "string \<Rightarrow> nat option" where
  "parse_nat s =
     (case s of [] \<Rightarrow> None
      | c # cs \<Rightarrow> if is_digit c then parse_digits cs (digit_val c) else None)"

definition py_int :: "string \<Rightarrow> int option" where
  "py_int s =
     (case strip s of [] \<Rightarrow> None
      | c # cs \<Rightarrow>
          if c = CHR ''-'' then map_option (\<lambda>n. - int n) (parse_nat cs)
          else if c = CHR ''+'' then map_option int (parse_nat cs)
          else map_option int (parse_nat (c # cs)))"

text \<open>\<open>str(n)\<close> of an \<open>int\<close>, as the f-string \<open>f'{n}'\<close> formats it.\<close>

definition digit_char :: "nat \<Rightarrow> char" where
  "digit_char d = ''0123456789'' ! d"

fun digits :: "nat \<Rightarrow> string" where
  "digits n = (if n < 10 then [digit_char n] else digits (n div 10) @ [digit_char (n mod 10)])"

declare digits.simps [simp del]

definition py_str :: "int \<Rightarrow> string" where
  "py_str n = (if n < 0 then CHR ''-'' # digits (nat (- n)) else digits (nat n))"

section \<open>Paths and the file store: \<open>helpers/path_and_files_processing.py\<close>\<close>

text \<open>\<open>os.path.split(path)[-1]\<close> on POSIX: what follows the last slash.\<close>

definition path_tail :: "string \<Rightarrow> string" where
  "path_tail path = rev (takeWhile (\<lambda>c. c \<noteq> CHR ''/'') (rev path))"

definition get_filename :: "string \<Rightarrow> string" where
  "get_filename path = takeWhile (\<lambda>c. c \<noteq> CHR ''.'') (path_tail path)"

text \<open>The extension \<open>None\<close> and the empty extension both keep the file name as it is.\<close>

definition combine_path :: "string \<Rightarrow> string \<Rightarrow> string option \<Rightarrow> string" where
  "combine_path folder filename extension =
     (case extension of
        None \<Rightarrow> folder @ ''/'' @ filename
      | Some ext \<Rightarrow>
          if ext = [] then folder @ ''/'' @ filename
          else folder @ ''/'' @ filename @ ''.'' @ ext)"

text \<open>
  The file system is a store from path names to nodes, kept as an association list in
  directory order. A path is identified by its spelling. \<open>glob(pattern)\<close> lists the paths
  of the store that match the pattern; the matching of a path against a pattern is the
  library's and is the parameter \<open>fnmatch\<close>.
\<close>

datatype node = File string | Dir

type_synonym store = "(string \<times> node) list"

definition glob :: "(string \<Rightarrow> string \<Rightarrow> bool) \<Rightarrow> string \<Rightarrow> store \<Rightarrow> string list" where
  "glob fnmatch pattern fs = filter (fnmatch pattern) (map fst fs)"

definition get_files ::
  "(string \<Rightarrow> string \<Rightarrow> bool) \<Rightarrow> string \<Rightarrow> string \<Rightarrow> store \<Rightarrow> string list" where
  "get_files fnmatch folder filename fs = glob fnmatch (combine_path folder filename None) fs"

section \<open>\<open>TXTAnnotations\<close>: \<open>dl/annotation_processing.py\<close>\<close>

record TXTAnnotations =
  images_path :: string
  txt_path :: string
  classes_config :: "int list"

subsection \<open>\<open>add_txt\<close>\<close>

text \<open>
  \<open>combine_path(self.txt_path, get_filename(path))\<close>, with the default extension
  \<open>'txt'\<close>: the annotation file of an image or of a JSON file.

  \<open>os.path.exists\<close> holds of every path of the store, file or directory;
  \<open>open(txt_file, 'w+').close()\<close> leaves an empty file. The list of images is computed
  by \<open>get_files\<close> once, before the loop.
\<close>

definition txt_file_of :: "string \<Rightarrow> string \<Rightarrow> string" where
  "txt_file_of txt_dir path = combine_path txt_dir (get_filename path) (Some ''txt'')"

fun add_txt_loop :: "string \<Rightarrow> string list \<Rightarrow> store \<Rightarrow> store" where
  "add_txt_loop txt_dir [] fs = fs"
| "add_txt_loop txt_dir (img # rest) fs =
     (let txt_file = txt_file_of txt_dir img
      in if map_of fs txt_file = None
         then add_txt_loop txt_dir rest (AList.update txt_file (File []) fs)
         else add_txt_loop txt_dir rest fs)"

definition add_txt ::
  "(string \<Rightarrow> string \<Rightarrow> bool) \<Rightarrow> 'a TXTAnnotations_scheme \<Rightarrow> string \<Rightarrow> store \<Rightarrow> store" where
  "add_txt fnmatch self filename fs =
     add_txt_loop (txt_path self) (get_files fnmatch (images_path self) filename fs) fs"

subsection \<open>\<open>update_classes\<close>\<close>

text \<open>
  The dictionary \<open>keep\<close> is an association list in insertion order;
  \<open>old_class not in keep\<close> is \<open>map_of keep old_class = None\<close>. The counter \<open>shift\<close> is
  threaded through the loop.
\<close>

fun update_loop :: "int list \<Rightarrow> int list \<Rightarrow> (int \<times> int) list \<Rightarrow> int \<Rightarrow> (int \<times> int) list" where
  "update_loop [] to_remove keep shift = keep"
| "update_loop (old_class # rest) to_remove keep shift =
     (if old_class \<in> set to_remove then update_loop rest to_remove keep (shift + 1)
      else if map_of keep old_class = None
        then update_loop rest to_remove (keep @ [(old_class, old_class - shift)]) shift
      else update_loop rest to_remove keep shift)"

definition update_classes ::
  "'a TXTAnnotations_scheme \<Rightarrow> int list \<Rightarrow> error + (int \<times> int) list" where
  "update_classes self to_remove =
     (if classes_config self = [] then Inl ValueError
      else Inr (update_loop (classes_config self) to_remove [] 0))"

subsection \<open>\<open>remove_class\<close>\<close>

text \<open>
  One line of an annotation file: \<open>cur_class, line_wo_class = line.split(' ', 1)\<close> and
  \<open>cur_class = int(cur_class)\<close>; both failures are a \<open>ValueError\<close>.
\<close>

definition parse_line :: "string \<Rightarrow> (int \<times> string) option" where
  "parse_line line =
     (case split_once line of
        None \<Rightarrow> None
      | Some (cur_class, line_wo_class) \<Rightarrow>
          (case py_int cur_class of
             None \<Rightarrow> None
           | Some cur_class \<Rightarrow> Some (cur_class, line_wo_class)))"

text \<open>
  The inner loop over the lines read. The result is the exception raised, if any, and
  the text written to the file so far.
\<close>

fun remove_lines ::
  "(int \<times> int) list \<Rightarrow> int list \<Rightarrow> string list \<Rightarrow> string \<Rightarrow> error option \<times> string" where
  "remove_lines keep to_remove [] out = (None, out)"
| "remove_lines keep to_remove (line # rest) out =
     (case parse_line line of
        None \<Rightarrow> (Some ValueError, out)
      | Some (cur_class, line_wo_class) \<Rightarrow>
          if cur_class \<in> set to_remove then remove_lines keep to_remove rest out
          else (case map_of keep cur_class of
                  None \<Rightarrow> (Some KeyError, out)
                | Some new_class \<Rightarrow>
                    remove_lines keep to_remove rest
                      (out @ py_str new_class @ [space] @ line_wo_class)))"

text \<open>
  The file is opened in mode \<open>r+\<close>, read whole, rewound and overwritten. On success
  \<open>truncate()\<close> cuts it after the text written. When a line raises, the file is closed
  without truncation: the text written so far replaces the beginning of the old
  content and the remainder of the old content stays.
\<close>

fun remove_class_loop ::
  "(int \<times> int) list \<Rightarrow> int list \<Rightarrow> string list \<Rightarrow> store \<Rightarrow> error option \<times> store" where
  "remove_class_loop keep to_remove [] fs = (None, fs)"
| "remove_class_loop keep to_remove (txt # rest) fs =
     (case map_of fs txt of
        None \<Rightarrow> (Some FileNotFoundError, fs)
      | Some Dir \<Rightarrow> (Some IsADirectoryError, fs)
      | Some (File new_txt) \<Rightarrow>
          (case remove_lines keep to_remove (readlines new_txt) [] of
             (None, out) \<Rightarrow>
               remove_class_loop keep to_remove rest (AList.update txt (File out) fs)
           | (Some e, out) \<Rightarrow>
               (Some e, AList.update txt (File (out @ drop (length out) new_txt)) fs)))"

definition remove_class ::
  "(string \<Rightarrow> string \<Rightarrow> bool) \<Rightarrow> 'a TXTAnnotations_scheme \<Rightarrow> int list \<Rightarrow> string \<Rightarrow> store
     \<Rightarrow> error option \<times> store" where
  "remove_class fnmatch self to_remove filename fs =
     (case update_classes self to_remove of
        Inl e \<Rightarrow> (Some e, fs)
      | Inr keep \<Rightarrow>
          remove_class_loop keep to_remove (get_files fnmatch (txt_path self) filename fs) fs)"

section \<open>\<open>JSON2TXT\<close>: \<open>dl/annotation_processing.py\<close>\<close>

record JSON2TXT = TXTAnnotations +
  json_path :: string
  map_config :: "(int \<times> int) list"




section \<open>\<open>counter\<close>: \<open>dl/annotate/analyse.py\<close>\<close>

text \<open>
  The keys of the dictionary \<open>cnt\<close> are the members of \<open>classes\<close>, which the signature
  declares as \<open>int\<close>, and the tokens read from the files, which are \<open>str\<close>. An \<open>int\<close> and
  a \<open>str\<close> are never equal, and ordering one against the other raises \<open>TypeError\<close>.
\<close>

datatype key = IntKey int | StrKey string

type_synonym tally = "(key \<times> int) list"

text \<open>\<open>if clss not in cnt: cnt[clss] = -1\<close>, then \<open>cnt[clss] += 1\<close>.\<close>

definition count_token :: "tally \<Rightarrow> key \<Rightarrow> tally" where
  "count_token cnt clss =
     (case map_of cnt clss of
        None \<Rightarrow> AList.update clss (- 1 + 1) cnt
      | Some n \<Rightarrow> AList.update clss (n + 1) cnt)"

text \<open>
  \<open>while clss := txt.readline().split(' ', 1)[0]\<close>: the loop ends at the first line
  whose leading token is empty, which is the end of the file or a line that starts
  with a space.
\<close>

fun count_lines :: "tally \<Rightarrow> string list \<Rightarrow> tally" where
  "count_lines cnt [] = cnt"
| "count_lines cnt (line # rest) =
     (let clss = first_token line
      in if clss = [] then cnt else count_lines (count_token cnt (StrKey clss)) rest)"

fun count_files :: "store \<Rightarrow> tally \<Rightarrow> string list \<Rightarrow> error + tally" where
  "count_files fs cnt [] = Inr cnt"
| "count_files fs cnt (txt_file # rest) =
     (case map_of fs txt_file of
        None \<Rightarrow> Inl FileNotFoundError
      | Some Dir \<Rightarrow> Inl IsADirectoryError
      | Some (File txt) \<Rightarrow> count_files fs (count_lines cnt (readlines txt)) rest)"

text \<open>
  \<open>sorted(cnt.items())\<close>. Strings are ordered by code point, tuples by their first
  differing component.  The keys of a dictionary are distinct, so the sorted list does
  not depend on the sorting algorithm, and neither does the \<open>TypeError\<close>: every
  comparison sort of a list with keys of both kinds has to compare two of them. The
  model is insertion sort.
\<close>

fun str_less :: "string \<Rightarrow> string \<Rightarrow> bool" where
  "str_less [] [] = False"
| "str_less [] (y # ys) = True"
| "str_less (x # xs) [] = False"
| "str_less (x # xs) (y # ys) =
     ((of_char x :: nat) < of_char y \<or> (x = y \<and> str_less xs ys))"

fun key_less :: "key \<Rightarrow> key \<Rightarrow> error + bool" where
  "key_less (IntKey a) (IntKey b) = Inr (a < b)"
| "key_less (StrKey a) (StrKey b) = Inr (str_less a b)"
| "key_less (IntKey a) (StrKey b) = Inl TypeError"
| "key_less (StrKey a) (IntKey b) = Inl TypeError"

fun item_less :: "key \<times> int \<Rightarrow> key \<times> int \<Rightarrow> error + bool" where
  "item_less (k1, n1) (k2, n2) = (if k1 = k2 then Inr (n1 < n2) else key_less k1 k2)"

fun insert_item :: "key \<times> int \<Rightarrow> tally \<Rightarrow> error + tally" where
  "insert_item x [] = Inr [x]"
| "insert_item x (y # ys) =
     (case item_less x y of
        Inl e \<Rightarrow> Inl e
      | Inr True \<Rightarrow> Inr (x # y # ys)
      | Inr False \<Rightarrow> (case insert_item x ys of Inl e \<Rightarrow> Inl e | Inr r \<Rightarrow> Inr (y # r)))"

fun py_sorted :: "tally \<Rightarrow> error + tally" where
  "py_sorted [] = Inr []"
| "py_sorted (x # xs) = (case py_sorted xs of Inl e \<Rightarrow> Inl e | Inr r \<Rightarrow> insert_item x r)"

text \<open>\<open>cnt = {cl: 0 for cl in classes}\<close>, the files of \<open>glob(f'{path}/{filename}.txt')\<close>.\<close>

definition counter ::
  "(string \<Rightarrow> string \<Rightarrow> bool) \<Rightarrow> string \<Rightarrow> string \<Rightarrow> key list \<Rightarrow> store \<Rightarrow> error + tally" where
  "counter fnmatch path filename classes fs =
     (let cnt = foldl (\<lambda>d cl. AList.update cl 0 d) [] classes
      in case count_files fs cnt (glob fnmatch (path @ ''/'' @ filename @ ''.txt'') fs) of
           Inl e \<Rightarrow> Inl e
         | Inr cnt \<Rightarrow> py_sorted cnt)"

section \<open>Auxiliary notions for the statements\<close>

text \<open>The number of members of \<open>xs\<close> that are to be removed.\<close>

definition removed :: "int list \<Rightarrow> int list \<Rightarrow> int" where
  "removed to_remove xs = int (length (filter (\<lambda>c. c \<in> set to_remove) xs))"






section \<open>Properties of the remap loop\<close>

lemma removed_Nil: "removed tr [] = 0"
  by (simp add: removed_def)

lemma removed_Cons: "removed tr (x # xs) = (if x \<in> set tr then 1 else 0) + removed tr xs"
  by (simp add: removed_def)

lemma removed_append: "removed tr (xs @ ys) = removed tr xs + removed tr ys"
  by (simp add: removed_def)

lemma removed_le_length: "removed tr xs \<le> int (length xs)"
  by (simp add: removed_def)

lemma update_loop_append:
  "update_loop (xs @ ys) tr keep shift =
     update_loop ys tr (update_loop xs tr keep shift) (shift + removed tr xs)"
  by (induction xs arbitrary: keep shift) (simp_all add: removed_Nil removed_Cons ac_simps)

text \<open>The keys of the remap are the keys it started with and the surviving classes.\<close>

lemma update_loop_keys:
  "fst ` set (update_loop xs tr keep shift) = fst ` set keep \<union> (set xs - set tr)"
proof (induction xs arbitrary: keep shift)
  case Nil
  show ?case by simp
next
  case (Cons x xs)
  show ?case
  proof (cases "x \<in> set tr")
    case True
    then show ?thesis using Cons.IH [of keep "shift + 1"] by auto
  next
    case False
    show ?thesis
    proof (cases "map_of keep x = None")
      case True
      with False show ?thesis
        using Cons.IH [of "keep @ [(x, x - shift)]" shift] by auto
    next
      case False
      then have "x \<in> fst ` set keep" by (simp add: map_of_eq_None_iff)
      with False \<open>x \<notin> set tr\<close> show ?thesis
        using Cons.IH [of keep shift] by auto
    qed
  qed
qed

lemma update_loop_preserves:
  "map_of keep x = Some v \<Longrightarrow> map_of (update_loop xs tr keep shift) x = Some v"
  by (induction xs arbitrary: keep shift) simp_all

text \<open>
  A surviving class is mapped at its first occurrence, to itself less the number of
  removed entries met before.
\<close>

lemma update_loop_first:
  "x \<in> set xs \<Longrightarrow> x \<notin> set tr \<Longrightarrow> map_of keep x = None \<Longrightarrow>
   map_of (update_loop xs tr keep shift) x
     = Some (x - (shift + removed tr (takeWhile (\<lambda>y. y \<noteq> x) xs)))"
proof (induction xs arbitrary: keep shift)
  case Nil
  then show ?case by simp
next
  case (Cons c xs)
  show ?case
  proof (cases "c = x")
    case True
    have "map_of (keep @ [(x, x - shift)]) x = Some (x - shift)"
      using Cons.prems(3) by (simp add: map_add_def)
    then have "map_of (update_loop xs tr (keep @ [(x, x - shift)]) shift) x = Some (x - shift)"
      by (rule update_loop_preserves)
    with True Cons.prems show ?thesis by (simp add: removed_Nil)
  next
    case False
    with Cons.prems have mem: "x \<in> set xs" by simp
    show ?thesis
    proof (cases "c \<in> set tr")
      case True
      with False show ?thesis
        using Cons.IH [OF mem Cons.prems(2) Cons.prems(3), of "shift + 1"]
        by (simp add: removed_Cons)
    next
      case notin: False
      show ?thesis
      proof (cases "map_of keep c = None")
        case True
        have "map_of (keep @ [(c, c - shift)]) x = None"
          using Cons.prems(3) False by (simp add: map_add_def)
        from Cons.IH [OF mem Cons.prems(2) this, of shift] True notin False
        show ?thesis by (simp add: removed_Cons)
      next
        case nn: False
        from Cons.IH [OF mem Cons.prems(2) Cons.prems(3), of shift] nn notin False
        show ?thesis by (auto simp: removed_Cons)
      qed
    qed
  qed
qed

lemma takeWhile_distinct_nth:
  "distinct xs \<Longrightarrow> i < length xs \<Longrightarrow> takeWhile (\<lambda>y. y \<noteq> xs ! i) xs = take i xs"
  by (rule takeWhile_eq_take_P_nth) (auto simp: nth_eq_iff_index_eq)

lemma update_loop_nth:
  assumes "distinct cfg" "i < length cfg" "cfg ! i \<notin> set tr"
  shows "map_of (update_loop cfg tr [] 0) (cfg ! i) = Some (cfg ! i - removed tr (take i cfg))"
proof -
  have "cfg ! i \<in> set cfg" using assms(2) by simp
  from update_loop_first [OF this assms(3), of "[]" 0]
  show ?thesis using assms(1,2) by (simp add: takeWhile_distinct_nth)
qed

lemma strict_sorted_gap:
  "sorted_wrt (<) (xs :: int list) \<Longrightarrow> i \<le> j \<Longrightarrow> j < length xs \<Longrightarrow>
   int j - int i \<le> xs ! j - xs ! i"
proof (induction j)
  case 0
  then show ?case by simp
next
  case (Suc j)
  show ?case
  proof (cases "i = Suc j")
    case True
    then show ?thesis by simp
  next
    case False
    with Suc.prems have le: "i \<le> j" and lt: "j < length xs" by simp_all
    have "xs ! j < xs ! Suc j"
      using Suc.prems(1) Suc.prems(3) by (simp add: sorted_wrt_iff_nth_less)
    with Suc.IH [OF Suc.prems(1) le lt] show ?thesis by simp
  qed
qed

lemma removed_between:
  assumes "i < j" "j \<le> length xs" "xs ! i \<notin> set tr"
  shows "removed tr (take j xs) - removed tr (take i xs) \<le> int j - int i - 1"
proof -
  have i: "i < length xs" using assms by simp
  have "take j xs = take i xs @ xs ! i # take (j - Suc i) (drop (Suc i) xs)"
  proof -
    have "take j xs = take i xs @ take (j - i) (drop i xs)"
      using assms(1) by (metis le_add_diff_inverse less_imp_le_nat take_add)
    moreover have "drop i xs = xs ! i # drop (Suc i) xs"
      using i by (simp add: Cons_nth_drop_Suc)
    moreover have "j - i = Suc (j - Suc i)" using assms(1) by simp
    ultimately show ?thesis by simp
  qed
  then have "removed tr (take j xs) - removed tr (take i xs)
      = removed tr (take (j - Suc i) (drop (Suc i) xs))"
    using assms(3) by (simp add: removed_append removed_Cons)
  also have "\<dots> \<le> int (length (take (j - Suc i) (drop (Suc i) xs)))"
    by (rule removed_le_length)
  also have "\<dots> \<le> int j - int i - 1" using assms(1,2) by simp
  finally show ?thesis .
qed

lemma values_snoc: "snd ` set (keep @ [(k, v)]) = insert v (snd ` set keep)"
  by auto

lemma card_survivors:
  "distinct xs \<Longrightarrow> int (card (set xs - set tr)) = int (length xs) - removed tr xs"
proof (induction xs)
  case Nil
  then show ?case by (simp add: removed_Nil)
next
  case (Cons x xs)
  then have x: "x \<notin> set xs" and d: "distinct xs" by simp_all
  show ?case
  proof (cases "x \<in> set tr")
    case True
    then have "set (x # xs) - set tr = set xs - set tr" by auto
    with True Cons.IH [OF d] show ?thesis by (simp add: removed_Cons)
  next
    case False
    then have "set (x # xs) - set tr = insert x (set xs - set tr)" by auto
    moreover have "x \<notin> set xs - set tr" using x by simp
    ultimately have "card (set (x # xs) - set tr) = Suc (card (set xs - set tr))"
      by (simp add: card_insert_disjoint)
    with False Cons.IH [OF d] show ?thesis by (simp add: removed_Cons)
  qed
qed

text \<open>On the class config \<open>0, 1, \<dots>, n - 1\<close> the new ids are an initial segment.\<close>

lemma update_loop_upto_values:
  "snd ` set (update_loop (map int [0..<n]) tr [] 0)
     = {0 ..< int n - removed tr (map int [0..<n])}"
proof (induction n)
  case 0
  show ?case by (simp add: removed_Nil)
next
  case (Suc n)
  let ?K = "update_loop (map int [0..<n]) tr [] 0"
  let ?r = "removed tr (map int [0..<n])"
  have split: "update_loop (map int [0..<Suc n]) tr [] 0 = update_loop [int n] tr ?K ?r"
    by (simp add: update_loop_append)
  have keys: "fst ` set ?K = set (map int [0..<n]) - set tr"
    by (simp add: update_loop_keys)
  have fresh: "map_of ?K (int n) = None"
    using keys by (auto simp: map_of_eq_None_iff)
  have le: "?r \<le> int n" using removed_le_length [of tr "map int [0..<n]"] by simp
  show ?case
  proof (cases "int n \<in> set tr")
    case True
    with split Suc.IH show ?thesis by (simp add: removed_append removed_Cons removed_Nil)
  next
    case False
    with split fresh have "snd ` set (update_loop (map int [0..<Suc n]) tr [] 0)
        = insert (int n - ?r) (snd ` set ?K)"
      by (simp add: values_snoc)
    also have "\<dots> = insert (int n - ?r) {0 ..< int n - ?r}" by (simp only: Suc.IH)
    also have "\<dots> = {0 ..< int (Suc n) - ?r}" using le by auto
    finally show ?thesis using False by (simp add: removed_append removed_Cons removed_Nil)
  qed
qed

section \<open>The remap is gap-free on the config \<open>0, \<dots>, n - 1\<close>\<close>

text \<open>
  C1, as stated, at the class config \<open>(5, 7)\<close> with nothing to remove: both classes
  survive, the remap is \<open>{5: 5, 7: 7}\<close>, and its image is not \<open>{0, 1}\<close>.
\<close>

theorem update_classes_gap_free_counterexample:
  "update_classes \<lparr>images_path = ''images'', txt_path = ''labels'', classes_config = [5, 7]\<rparr> []
     = Inr [(5, 5), (7, 7)]
   \<and> card (set [5, 7 :: int] - set []) = 2
   \<and> snd ` set [(5 :: int, 5 :: int), (7, 7)] \<noteq> {0 ..< 2}"
proof -
  have "(5 :: int) \<notin> {0 ..< 2}" by simp
  then have "{5 :: int, 7} \<noteq> {0 ..< 2}" by blast
  then show ?thesis by (simp add: update_classes_def)
qed

text \<open>
  C1, amended: when the class config is the list \<open>0, 1, \<dots>, n - 1\<close> with \<open>n > 0\<close>, then
  for every \<open>to_remove\<close> the call \<open>update_classes(to_remove)\<close> returns a remap whose keys
  are the surviving classes and whose image is exactly \<open>{0, \<dots>, N - 1}\<close>, where \<open>N\<close> is the
  number of surviving classes.
\<close>

theorem update_classes_gap_free:
  assumes "classes_config self = map int [0..<n]" and "0 < n"
  shows "\<exists>keep. update_classes self to_remove = Inr keep \<and>
     fst ` set keep = set (classes_config self) - set to_remove \<and>
     snd ` set keep = {0 ..< int (card (set (classes_config self) - set to_remove))}"
proof -
  have d: "distinct (map int [0..<n])" by (simp add: distinct_map)
  have "int (card (set (map int [0..<n]) - set to_remove))
      = int n - removed to_remove (map int [0..<n])"
    using card_survivors [OF d, of to_remove] by simp
  then have v: "snd ` set (update_loop (map int [0..<n]) to_remove [] 0)
      = {0 ..< int (card (set (map int [0..<n]) - set to_remove))}"
    by (simp only: update_loop_upto_values)
  have k: "fst ` set (update_loop (map int [0..<n]) to_remove [] 0)
      = set (map int [0..<n]) - set to_remove"
    by (simp add: update_loop_keys)
  have "update_classes self to_remove = Inr (update_loop (map int [0..<n]) to_remove [] 0)"
    using assms by (simp add: update_classes_def)
  with k v assms(1) show ?thesis by simp
qed

theorem update_classes_gap_free_witness:
  "\<exists>keep. update_classes
       \<lparr>images_path = ''images'', txt_path = ''labels'', classes_config = [0, 1, 2]\<rparr> [1]
     = Inr keep \<and> fst ` set keep = {0, 2} \<and> snd ` set keep = {0 ..< 2}"
proof -
  have l: "map int [0..<3] = [0, 1, 2]" by (simp add: upt_rec)
  have c: "card ({0, 1, 2} - {1 :: int}) = 2" by (simp add: insert_Diff_if)
  have s: "{0, 1, 2} - {1 :: int} = {0, 2}" by auto
  show ?thesis
    using update_classes_gap_free
      [of "\<lparr>images_path = ''images'', txt_path = ''labels'', classes_config = [0, 1, 2]\<rparr>" 3 "[1]"]
    by (simp add: l c s)
qed

section \<open>The remap preserves the order of a strictly ascending config\<close>

text \<open>
  C2, as stated, at the class config \<open>(5, 3)\<close> with nothing to remove: 5 comes before 3
  in the config, both survive, and the remap \<open>{5: 5, 3: 3}\<close> sends 5 above 3.
\<close>

theorem update_classes_order_counterexample:
  "update_classes \<lparr>images_path = ''images'', txt_path = ''labels'', classes_config = [5, 3]\<rparr> []
     = Inr [(5, 5), (3, 3)]
   \<and> \<not> the (map_of [(5, 5), (3, 3)] 5) < the (map_of [(5 :: int, 5 :: int), (3, 3)] 3)"
  by (simp add: update_classes_def)

text \<open>
  C2, amended: when the class config is strictly ascending (sorted, without duplicates),
  then for every \<open>to_remove\<close>, whenever the classes at positions \<open>i < j\<close> of the config both
  survive, the remap returned by \<open>update_classes(to_remove)\<close> sends the first to a
  smaller new id than the second.
\<close>

theorem update_classes_order:
  assumes "sorted_wrt (<) (classes_config self)" and "i < j"
    and "j < length (classes_config self)"
    and "classes_config self ! i \<notin> set to_remove"
    and "classes_config self ! j \<notin> set to_remove"
  shows "\<exists>keep ra rb. update_classes self to_remove = Inr keep \<and>
           map_of keep (classes_config self ! i) = Some ra \<and>
           map_of keep (classes_config self ! j) = Some rb \<and> ra < rb"
proof -
  let ?cfg = "classes_config self"
  have ne: "?cfg \<noteq> []" using assms(3) by auto
  have d: "distinct ?cfg" using assms(1) strict_sorted_iff by blast
  have i: "i < length ?cfg" using assms(2,3) by simp
  have a: "map_of (update_loop ?cfg to_remove [] 0) (?cfg ! i)
      = Some (?cfg ! i - removed to_remove (take i ?cfg))"
    using d i assms(4) by (rule update_loop_nth)
  have b: "map_of (update_loop ?cfg to_remove [] 0) (?cfg ! j)
      = Some (?cfg ! j - removed to_remove (take j ?cfg))"
    using d assms(3) assms(5) by (rule update_loop_nth)
  have gap: "int j - int i \<le> ?cfg ! j - ?cfg ! i"
    using assms(1) assms(2) assms(3) by (simp add: strict_sorted_gap)
  have rem: "removed to_remove (take j ?cfg) - removed to_remove (take i ?cfg)
      \<le> int j - int i - 1"
    using removed_between [of i j ?cfg to_remove] assms(2) assms(3) assms(4) by simp
  have "?cfg ! i - removed to_remove (take i ?cfg) < ?cfg ! j - removed to_remove (take j ?cfg)"
    using gap rem by linarith
  with a b ne show ?thesis by (simp add: update_classes_def)
qed

theorem update_classes_order_witness:
  "\<exists>keep ra rb. update_classes
       \<lparr>images_path = ''images'', txt_path = ''labels'', classes_config = [0, 2, 3, 7]\<rparr> [2]
     = Inr keep \<and> map_of keep 0 = Some ra \<and> map_of keep 7 = Some rb \<and> ra < rb"
  using update_classes_order
    [of "\<lparr>images_path = ''images'', txt_path = ''labels'', classes_config = [0, 2, 3, 7]\<rparr>"
        0 3 "[2]"]
  by simp

section \<open>The class config must be set\<close>

text \<open>
  C8: \<open>update_classes\<close> raises \<open>ValueError\<close> when the class config is empty, which is also
  its value when it was never set, and with it \<open>remove_class\<close> fails before it lists or
  opens any file, so that the store is as it was. On a non-empty class config
  \<open>update_classes\<close> returns a remap.
\<close>

theorem update_classes_config_error:
  "(classes_config self = [] \<longrightarrow>
      update_classes self to_remove = Inl ValueError \<and>
      remove_class fnmatch self to_remove filename fs = (Some ValueError, fs)) \<and>
   (classes_config self \<noteq> [] \<longrightarrow> (\<exists>keep. update_classes self to_remove = Inr keep))"
  by (simp add: update_classes_def remove_class_def)

theorem update_classes_config_error_witness:
  "update_classes \<lparr>images_path = ''images'', txt_path = ''labels'', classes_config = []\<rparr> [1]
     = Inl ValueError \<and>
   remove_class (\<lambda>pattern path. True)
       \<lparr>images_path = ''images'', txt_path = ''labels'', classes_config = []\<rparr> [1] ''*''
       [(''labels/a.txt'', File ''1 0.5 0.5 0.1 0.1\<newline>'')]
     = (Some ValueError, [(''labels/a.txt'', File ''1 0.5 0.5 0.1 0.1\<newline>'')]) \<and>
   (\<exists>keep. update_classes
       \<lparr>images_path = ''images'', txt_path = ''labels'', classes_config = [0, 1]\<rparr> [1] = Inr keep)"
  using update_classes_config_error
      [of "\<lparr>images_path = ''images'', txt_path = ''labels'', classes_config = []\<rparr>" "[1]"
          "\<lambda>pattern path. True" "''*''" "[(''labels/a.txt'', File ''1 0.5 0.5 0.1 0.1\<newline>'')]"]
    update_classes_config_error
      [of "\<lparr>images_path = ''images'', txt_path = ''labels'', classes_config = [0, 1]\<rparr>" "[1]"]
  by simp

section \<open>Counting classes\<close>

lemmas counter_eval = counter_def glob_def newline_def space_def first_token_def count_token_def

text \<open>Every member of \<open>classes\<close> starts with the tally 0.\<close>

lemma counter_initial_tally:
  "map_of (foldl (\<lambda>d cl. AList.update cl 0 d) cnt classes) k
     = (if k \<in> set classes then Some 0 else map_of cnt k)"
  by (induction classes arbitrary: cnt) (simp_all add: update_conv')

text \<open>A token that is in the tally is counted once for each of its lines.\<close>

lemma count_lines_listed:
  "first_token line \<noteq> [] \<Longrightarrow> map_of cnt (StrKey (first_token line)) = Some v \<Longrightarrow>
   map_of (count_lines cnt (replicate n line)) (StrKey (first_token line)) = Some (v + int n)"
  by (induction n arbitrary: cnt v) (simp_all add: count_token_def update_conv')

text \<open>A token that is not in the tally has, after \<open>n + 1\<close> lines, the tally \<open>n\<close>.\<close>

lemma count_lines_unlisted:
  "first_token line \<noteq> [] \<Longrightarrow> map_of cnt (StrKey (first_token line)) = None \<Longrightarrow>
   map_of (count_lines cnt (replicate (Suc n) line)) (StrKey (first_token line)) = Some (int n)"
  using count_lines_listed [of line "count_token cnt (StrKey (first_token line))" 0 n]
  by (simp add: count_token_def update_conv')

text \<open>
  The scenario of C3 before sorting: the tokens read are strings, so that none of them
  is one of the integers 0, 1, 2, and each starts from \<open>-1\<close>.
\<close>

lemma counter_scenario_tally:
  "count_files [(''d/a.txt'', File ''0 .. \<newline>1 ..\<newline>''), (''d/b.txt'', File ''0 ..\<newline>'')]
     [(IntKey 0, 0), (IntKey 1, 0), (IntKey 2, 0)] [''d/a.txt'', ''d/b.txt'']
   = Inr [(IntKey 0, 0), (IntKey 1, 0), (IntKey 2, 0), (StrKey ''0'', 1), (StrKey ''1'', 0)]"
  by (simp add: counter_eval)

text \<open>With the classes given as strings the tallies are those of the scenario.\<close>

lemma counter_scenario_strings:
  "counter (\<lambda>pattern path. True) ''d'' ''*'' [StrKey ''0'', StrKey ''1'', StrKey ''2'']
     [(''d/a.txt'', File ''0 .. \<newline>1 ..\<newline>''), (''d/b.txt'', File ''0 ..\<newline>'')]
   = Inr [(StrKey ''0'', 2), (StrKey ''1'', 1), (StrKey ''2'', 0)]"
  by (simp add: counter_eval)

text \<open>
  C3: the directory \<open>d\<close> holds \<open>a.txt\<close> with the lines \<open>0 .. \<close> and \<open>1 ..\<close> and \<open>b.txt\<close> with
  the line \<open>0 ..\<close>; both match \<open>d/*.txt\<close>. With \<open>classes = (0, 1, 2)\<close> the call
  \<open>counter('d', '*', (0, 1, 2))\<close> does not return \<open>[(0, 2), (1, 1), (2, 0)]\<close>: the
  dictionary holds integer and string keys, and sorting its items raises \<open>TypeError\<close>.
\<close>

theorem counter_scenario_type_error:
  "counter (\<lambda>pattern path. True) ''d'' ''*'' [IntKey 0, IntKey 1, IntKey 2]
     [(''d/a.txt'', File ''0 .. \<newline>1 ..\<newline>''), (''d/b.txt'', File ''0 ..\<newline>'')]
   = Inl TypeError"
  by (simp add: counter_eval)

text \<open>
  C4: a token that is not in the tally starts from \<open>-1\<close>, so that after its first
  occurrence its tally is 0, not 1: \<open>counter('d')\<close> on a directory whose only file has
  the one line \<open>7 0.5 0.5 0.1 0.1\<close> returns \<open>[('7', 0)]\<close>.
\<close>

theorem counter_first_occurrence_zero:
  "counter (\<lambda>pattern path. True) ''d'' ''*'' []
     [(''d/a.txt'', File ''7 0.5 0.5 0.1 0.1\<newline>'')]
   = Inr [(StrKey ''7'', 0)]"
  by (simp add: counter_eval)

section \<open>Removing classes from the annotation files\<close>








section \<open>Adding the missing annotation files\<close>

lemmas path_eval = get_files_def glob_def combine_path_def txt_file_of_def
  get_filename_def path_tail_def

lemma get_filename_plain:
  "CHR ''/'' \<notin> set (get_filename path) \<and> CHR ''.'' \<notin> set (get_filename path)"
proof -
  have "CHR ''/'' \<notin> set (path_tail path)"
    unfolding path_tail_def by (auto dest: set_takeWhileD)
  then have "CHR ''/'' \<notin> set (get_filename path)"
    unfolding get_filename_def by (auto dest: set_takeWhileD)
  moreover have "CHR ''.'' \<notin> set (get_filename path)"
    unfolding get_filename_def by (auto dest: set_takeWhileD)
  ultimately show ?thesis by simp
qed

lemma path_tail_append:
  "CHR ''/'' \<notin> set name \<Longrightarrow> path_tail (folder @ ''/'' @ name) = name"
proof -
  assume n: "CHR ''/'' \<notin> set name"
  have "rev (folder @ ''/'' @ name) = rev name @ CHR ''/'' # rev folder" by simp
  moreover have "takeWhile (\<lambda>c. c \<noteq> CHR ''/'') (rev name @ CHR ''/'' # rev folder) = rev name"
    using n by (auto simp: takeWhile_tail)
  ultimately show ?thesis by (simp add: path_tail_def)
qed

lemma get_filename_txt_file_of:
  assumes "CHR ''/'' \<notin> set name" and "CHR ''.'' \<notin> set name"
  shows "get_filename (combine_path folder name (Some ''txt'')) = name"
proof -
  have "CHR ''/'' \<notin> set (name @ ''.txt'')" using assms(1) by simp
  then have "path_tail (folder @ ''/'' @ (name @ ''.txt'')) = name @ ''.txt''"
    by (rule path_tail_append)
  moreover have "takeWhile (\<lambda>c. c \<noteq> CHR ''.'') (name @ ''.txt'') = name"
    using assms(2) by (auto simp: takeWhile_tail)
  ultimately show ?thesis by (simp add: get_filename_def combine_path_def)
qed

lemma txt_file_of_idem: "txt_file_of d (txt_file_of d path) = txt_file_of d path"
  using get_filename_plain [of path]
  by (simp add: txt_file_of_def get_filename_txt_file_of)

lemma add_txt_loop_lookup:
  "map_of (add_txt_loop d imgs fs) p =
     (case map_of fs p of
        Some n \<Rightarrow> Some n
      | None \<Rightarrow> if p \<in> txt_file_of d ` set imgs then Some (File []) else None)"
proof (induction imgs arbitrary: fs)
  case Nil
  show ?case by (simp split: option.splits)
next
  case (Cons img imgs)
  show ?case
  proof (cases "map_of fs (txt_file_of d img) = None")
    case True
    then show ?thesis
      using Cons.IH [of "AList.update (txt_file_of d img) (File []) fs"]
      by (auto simp: Let_def update_conv' split: option.splits)
  next
    case False
    then show ?thesis
      using Cons.IH [of fs] by (auto simp: Let_def split: option.splits)
  qed
qed

lemma add_txt_loop_fixed:
  "\<forall>img \<in> set imgs. map_of fs (txt_file_of d img) \<noteq> None \<Longrightarrow> add_txt_loop d imgs fs = fs"
  by (induction imgs) (auto simp: Let_def)

lemma add_txt_loop_keys:
  "fst ` set (add_txt_loop d imgs fs) \<subseteq> fst ` set fs \<union> txt_file_of d ` set imgs"
proof
  fix p assume "p \<in> fst ` set (add_txt_loop d imgs fs)"
  then have "map_of (add_txt_loop d imgs fs) p \<noteq> None" by (simp add: map_of_eq_None_iff)
  then have "map_of fs p \<noteq> None \<or> p \<in> txt_file_of d ` set imgs"
    by (auto simp: add_txt_loop_lookup split: option.splits if_splits)
  then show "p \<in> fst ` set fs \<union> txt_file_of d ` set imgs"
    by (auto simp: map_of_eq_None_iff)
qed

text \<open>
  C9: \<open>add_txt\<close> leaves every path of the store with the node it had, it creates an
  empty file exactly at the missing annotation files of the matched images, and a
  second run with the same arguments, on the store the first run left, changes nothing.
\<close>

theorem add_txt_backfill:
  "(\<forall>p n. map_of fs p = Some n \<longrightarrow> map_of (add_txt fnmatch self filename fs) p = Some n) \<and>
   (\<forall>p. map_of fs p = None \<longrightarrow>
      map_of (add_txt fnmatch self filename fs) p =
        (if p \<in> txt_file_of (txt_path self) ` set (get_files fnmatch (images_path self) filename fs)
         then Some (File []) else None)) \<and>
   add_txt fnmatch self filename (add_txt fnmatch self filename fs)
     = add_txt fnmatch self filename fs"
proof -
  let ?d = "txt_path self"
  let ?imgs = "get_files fnmatch (images_path self) filename fs"
  let ?fs' = "add_txt_loop ?d ?imgs fs"
  let ?m = "fnmatch (combine_path (images_path self) filename None)"
  have a: "\<forall>p n. map_of fs p = Some n \<longrightarrow> map_of ?fs' p = Some n"
    by (simp add: add_txt_loop_lookup)
  have b: "\<forall>p. map_of fs p = None \<longrightarrow>
      map_of ?fs' p = (if p \<in> txt_file_of ?d ` set ?imgs then Some (File []) else None)"
    by (simp add: add_txt_loop_lookup)
  have "\<forall>img \<in> set (get_files fnmatch (images_path self) filename ?fs').
          map_of ?fs' (txt_file_of ?d img) \<noteq> None"
  proof
    fix img assume "img \<in> set (get_files fnmatch (images_path self) filename ?fs')"
    then have m: "?m img" and k: "img \<in> fst ` set ?fs'"
      by (auto simp: get_files_def glob_def)
    from k add_txt_loop_keys [of ?d ?imgs fs]
    have "img \<in> fst ` set fs \<or> img \<in> txt_file_of ?d ` set ?imgs" by blast
    then have "txt_file_of ?d img \<in> txt_file_of ?d ` set ?imgs"
    proof
      assume "img \<in> fst ` set fs"
      with m have "img \<in> set ?imgs" by (auto simp: get_files_def glob_def)
      then show ?thesis by simp
    next
      assume "img \<in> txt_file_of ?d ` set ?imgs"
      then obtain i where "i \<in> set ?imgs" "img = txt_file_of ?d i" by blast
      then show ?thesis by (simp add: txt_file_of_idem)
    qed
    then show "map_of ?fs' (txt_file_of ?d img) \<noteq> None"
      by (auto simp: add_txt_loop_lookup split: option.splits)
  qed
  then have c: "add_txt_loop ?d (get_files fnmatch (images_path self) filename ?fs') ?fs' = ?fs'"
    by (rule add_txt_loop_fixed)
  from a b c show ?thesis by (simp add: add_txt_def)
qed

theorem add_txt_backfill_witness:
  "map_of (add_txt (\<lambda>pattern path. take 7 path = ''images/'')
       \<lparr>images_path = ''images'', txt_path = ''labels'', classes_config = []\<rparr> ''*''
       [(''images/a.jpg'', File ''A''), (''images/b.jpg'', File ''B''),
        (''labels/a.txt'', File ''0 0.5 0.5 0.1 0.1\<newline>'')]) ''labels/a.txt''
     = Some (File ''0 0.5 0.5 0.1 0.1\<newline>'') \<and>
   map_of (add_txt (\<lambda>pattern path. take 7 path = ''images/'')
       \<lparr>images_path = ''images'', txt_path = ''labels'', classes_config = []\<rparr> ''*''
       [(''images/a.jpg'', File ''A''), (''images/b.jpg'', File ''B''),
        (''labels/a.txt'', File ''0 0.5 0.5 0.1 0.1\<newline>'')]) ''labels/b.txt''
     = Some (File []) \<and>
   add_txt (\<lambda>pattern path. take 7 path = ''images/'')
       \<lparr>images_path = ''images'', txt_path = ''labels'', classes_config = []\<rparr> ''*''
     (add_txt (\<lambda>pattern path. take 7 path = ''images/'')
       \<lparr>images_path = ''images'', txt_path = ''labels'', classes_config = []\<rparr> ''*''
       [(''images/a.jpg'', File ''A''), (''images/b.jpg'', File ''B''),
        (''labels/a.txt'', File ''0 0.5 0.5 0.1 0.1\<newline>'')])
     = add_txt (\<lambda>pattern path. take 7 path = ''images/'')
       \<lparr>images_path = ''images'', txt_path = ''labels'', classes_config = []\<rparr> ''*''
       [(''images/a.jpg'', File ''A''), (''images/b.jpg'', File ''B''),
        (''labels/a.txt'', File ''0 0.5 0.5 0.1 0.1\<newline>'')]"
proof -
  let ?m = "\<lambda>(pattern :: string) path. take 7 path = ''images/''"
  let ?self = "\<lparr>images_path = ''images'', txt_path = ''labels'', classes_config = []\<rparr>"
  let ?fs = "[(''images/a.jpg'', File ''A''), (''images/b.jpg'', File ''B''),
        (''labels/a.txt'', File ''0 0.5 0.5 0.1 0.1\<newline>'')]"
  note t = add_txt_backfill [of ?fs ?m ?self "''*''"]
  have imgs: "txt_file_of (txt_path ?self) ` set (get_files ?m (images_path ?self) ''*'' ?fs)
      = {''labels/a.txt'', ''labels/b.txt''}"
    by (simp add: path_eval)
  have old: "map_of ?fs ''labels/a.txt'' = Some (File ''0 0.5 0.5 0.1 0.1\<newline>'')" by simp
  have new: "map_of ?fs ''labels/b.txt'' = None" by simp
  from t old have a: "map_of (add_txt ?m ?self ''*'' ?fs) ''labels/a.txt''
      = Some (File ''0 0.5 0.5 0.1 0.1\<newline>'')" by blast
  from t new have "map_of (add_txt ?m ?self ''*'' ?fs) ''labels/b.txt'' =
        (if ''labels/b.txt'' \<in> txt_file_of (txt_path ?self) ` set (get_files ?m (images_path ?self) ''*'' ?fs)
         then Some (File []) else None)" by blast
  then have b: "map_of (add_txt ?m ?self ''*'' ?fs) ''labels/b.txt'' = Some (File [])"
    unfolding imgs by simp
  from t have c: "add_txt ?m ?self ''*'' (add_txt ?m ?self ''*'' ?fs) = add_txt ?m ?self ''*'' ?fs"
    by blast
  from a b c show ?thesis by blast
qed

section \<open>Importing JSON annotations\<close>





end
